theory Spec2Isabelle
  imports Complex_Main "HOL-Library.Code_Target_Nat"
begin

section \<open>Numbers and strings of the host language\<close>

text \<open>
  The program stores ticket counts as values of the host language's number type and
  compares them with \<open>Number.isFinite\<close>, \<open>\<le>\<close>, \<open>||\<close> and \<open>Math.max\<close>.
  A number is modelled as an exact rational or one of the three special values, and the
  two zeros are one value. The numbers of the host language are 64-bit floating point:
  among the rationals they are the ones a conversion or an addition can produce, and the
  rounding of \<open>Number\<close> to such a value is not modelled.
\<close>

datatype jsnum = NaN | NegInf | Fin rat | PosInf

definition isFinite :: "jsnum \<Rightarrow> bool" where
  "isFinite x = (case x of Fin _ \<Rightarrow> True | _ \<Rightarrow> False)"

text \<open>\<open>a <= b\<close>: false as soon as one side is NaN.\<close>

fun js_le :: "jsnum \<Rightarrow> jsnum \<Rightarrow> bool" where
  "js_le NaN _ = False"
| "js_le _ NaN = False"
| "js_le NegInf _ = True"
| "js_le _ PosInf = True"
| "js_le (Fin a) (Fin b) = (a \<le> b)"
| "js_le (Fin a) NegInf = False"
| "js_le PosInf _ = False"

text \<open>\<open>x || 0\<close> on a number: NaN and zero are falsy.\<close>

definition or_zero :: "jsnum \<Rightarrow> jsnum" where
  "or_zero x = (if x = NaN \<or> x = Fin 0 then Fin 0 else x)"

text \<open>\<open>Math.max(a, b)\<close>: NaN if either argument is NaN.\<close>

definition Math_max :: "jsnum \<Rightarrow> jsnum \<Rightarrow> jsnum" where
  "Math_max a b = (if a = NaN \<or> b = NaN then NaN else if js_le a b then b else a)"

definition js_neg :: "jsnum \<Rightarrow> jsnum" where
  "js_neg x = (case x of NaN \<Rightarrow> NaN | NegInf \<Rightarrow> PosInf | PosInf \<Rightarrow> NegInf | Fin q \<Rightarrow> Fin (- q))"

text \<open>
  Strings are lists of 8-bit characters. \<open>trim\<close> removes the ASCII white space and line
  terminators at both ends, \<open>toLowerCase\<close> maps the ASCII capital letters; the
  host language's treatment of characters beyond ASCII is not modelled.
\<close>

definition is_ws :: "char \<Rightarrow> bool" where
  "is_ws c = (c \<in> set [CHR 0x09, CHR 0x0A, CHR 0x0B, CHR 0x0C, CHR 0x0D, CHR 0x20])"

definition trim :: "string \<Rightarrow> string" where
  "trim s = rev (dropWhile is_ws (rev (dropWhile is_ws s)))"

definition lower_char :: "char \<Rightarrow> char" where
  "lower_char c =
     (case map_of (zip ''ABCDEFGHIJKLMNOPQRSTUVWXYZ'' ''abcdefghijklmnopqrstuvwxyz'') c of
        Some l \<Rightarrow> l | None \<Rightarrow> c)"

definition toLowerCase :: "string \<Rightarrow> string" where
  "toLowerCase s = map lower_char s"

text \<open>\<open>s.split(/[...]/)\<close>: cut at every character of the class.\<close>

fun split_at :: "(char \<Rightarrow> bool) \<Rightarrow> string \<Rightarrow> string list" where
  "split_at P [] = [[]]"
| "split_at P (c # cs) =
     (if P c then [] # split_at P cs
      else (case split_at P cs of w # ws \<Rightarrow> (c # w) # ws | [] \<Rightarrow> [[c]]))"

text \<open>\<open>s.split(/c+/)\<close>: cut at every maximal run of characters of the class.\<close>

function split_runs :: "(char \<Rightarrow> bool) \<Rightarrow> string \<Rightarrow> string list" where
  "split_runs P [] = [[]]"
| "split_runs P (c # cs) =
     (if P c then [] # split_runs P (dropWhile P cs)
      else (case split_runs P cs of w # ws \<Rightarrow> (c # w) # ws | [] \<Rightarrow> [[c]]))"
  by pat_completeness auto
termination
  by (relation "measure (\<lambda>(P, s). length s)")
     (auto simp: less_Suc_eq_le length_dropWhile_le)

subsection \<open>\<open>Number(string)\<close>\<close>

text \<open>
  The conversion of a string to a number: white space is trimmed, the empty string is 0,
  \<open>0x\<close>, \<open>0o\<close> and \<open>0b\<close> introduce unsigned hexadecimal, octal and binary integers,
  anything else is an optionally signed decimal literal (digits, an optional fraction,
  an optional exponent) or \<open>Infinity\<close>; every other string is NaN.
\<close>

definition digit_val :: "char \<Rightarrow> nat option" where
  "digit_val c =
     map_of (zip ''0123456789abcdefABCDEF''
       [0, 1, 2, 3, 4, 5, 6, 7, 8, 9, 10, 11, 12, 13, 14, 15, 10, 11, 12, 13, 14, 15]) c"

definition is_digit :: "nat \<Rightarrow> char \<Rightarrow> bool" where
  "is_digit b c = (case digit_val c of Some d \<Rightarrow> d < b | None \<Rightarrow> False)"

definition to_nat :: "nat \<Rightarrow> string \<Rightarrow> nat" where
  "to_nat b ds = foldl (\<lambda>a c. a * b + (case digit_val c of Some d \<Rightarrow> d | None \<Rightarrow> 0)) 0 ds"

definition parse_radix :: "nat \<Rightarrow> string \<Rightarrow> jsnum" where
  "parse_radix b ds =
     (if ds \<noteq> [] \<and> list_all (is_digit b) ds then Fin (of_nat (to_nat b ds)) else NaN)"

definition pow10 :: "int \<Rightarrow> rat" where
  "pow10 e = (if 0 \<le> e then 10 ^ nat e else 1 / 10 ^ nat (- e))"

definition parse_digits :: "string \<Rightarrow> int option" where
  "parse_digits ds =
     (if ds \<noteq> [] \<and> list_all (is_digit 10) ds then Some (int (to_nat 10 ds)) else None)"

fun parse_exponent :: "string \<Rightarrow> int option" where
  "parse_exponent [] = Some 0"
| "parse_exponent (c # r) =
     (if c = CHR ''e'' \<or> c = CHR ''E'' then
        (case r of
           CHR ''+'' # ds \<Rightarrow> parse_digits ds
         | CHR ''-'' # ds \<Rightarrow> map_option uminus (parse_digits ds)
         | _ \<Rightarrow> parse_digits r)
      else None)"

definition parse_decimal :: "string \<Rightarrow> jsnum" where
  "parse_decimal s =
     (if s = ''Infinity'' then PosInf
      else
        let ip = takeWhile (is_digit 10) s;
            r1 = dropWhile (is_digit 10) s;
            fp = (case r1 of CHR ''.'' # t \<Rightarrow> takeWhile (is_digit 10) t | _ \<Rightarrow> []);
            r2 = (case r1 of CHR ''.'' # t \<Rightarrow> dropWhile (is_digit 10) t | _ \<Rightarrow> r1)
        in if ip = [] \<and> fp = [] then NaN
           else (case parse_exponent r2 of
                   None \<Rightarrow> NaN
                 | Some e \<Rightarrow> Fin (of_nat (to_nat 10 (ip @ fp)) * pow10 (e - int (length fp)))))"

definition Number :: "string \<Rightarrow> jsnum" where
  "Number s =
     (let t = trim s in
      case t of
        [] \<Rightarrow> Fin 0
      | c # r \<Rightarrow>
          if c = CHR ''0'' \<and> r \<noteq> [] \<and> hd r \<in> set ''xX'' then parse_radix 16 (tl r)
          else if c = CHR ''0'' \<and> r \<noteq> [] \<and> hd r \<in> set ''oO'' then parse_radix 8 (tl r)
          else if c = CHR ''0'' \<and> r \<noteq> [] \<and> hd r \<in> set ''bB'' then parse_radix 2 (tl r)
          else if c = CHR ''+'' then parse_decimal r
          else if c = CHR ''-'' then js_neg (parse_decimal r)
          else parse_decimal t)"

section \<open>Data model\<close>

text \<open>
  The four persisted collections and the transient view state of the \<open>App\<close>
  component. The three types with a \<open>name\<close> field get a prefix each; a draw order is
  always built from an array length or index, so it is a natural number.
\<close>

record participant =
  p_name :: string
  p_qty :: jsnum

record prize =
  pr_name :: string
  pr_order :: nat

record winner =
  w_name :: string
  w_couponNumber :: int
  w_prize :: string
  w_ts :: string

record audit_row =
  Data :: string
  Hora :: string
  Participante :: string
  Cupom :: int
  Qtde_Cupons :: jsnum
  Premio :: string

text \<open>An entry of the ticket pool: \<open>{ name, couponNumber }\<close>.\<close>

type_synonym coupon = "string \<times> int"

record state =
  participants :: "participant list"
  prizes :: "prize list"
  winners :: "winner list"
  audit :: "audit_row list"
  highlight :: "winner option"
  countdown :: nat
  rolling :: bool

definition init_state :: state where
  "init_state = \<lparr>participants = [], prizes = [], winners = [], audit = [],
     highlight = None, countdown = 0, rolling = False\<rparr>"

text \<open>What \<open>alert\<close> shows; the message texts are not modelled.\<close>

datatype notice = NameAlreadyRegistered | LinesIgnored nat | NoEligibleCoupons | NoPrizesLeft

text \<open>The reading of the clock at a draw: the three renderings of \<open>new Date()\<close>.\<close>

record clock =
  toISOString :: string
  toLocaleDateString :: string
  toLocaleTimeString :: string

text \<open>How a callback ends: it returns or it throws.\<close>

datatype 'a outcome = Returns 'a | Throws

section \<open>Derived data\<close>

definition winnersSet :: "winner list \<Rightarrow> string set" where
  "winnersSet ws = set (map (\<lambda>w. toLowerCase (w_name w)) ws)"

definition remainingPrizes :: "prize list \<Rightarrow> winner list \<Rightarrow> prize list" where
  "remainingPrizes prs ws = filter (\<lambda>pr. \<not> (\<exists>w \<in> set ws. w_prize w = pr_name pr)) prs"

text \<open>
  An array holds at most \<open>2\<^sup>3\<^sup>2 - 1\<close> elements: \<open>push\<close> on an array of that length
  throws a \<open>RangeError\<close>. The memory an engine has is not modelled.
\<close>

definition array_max :: nat where
  "array_max = 4294967295"

text \<open>
  \<open>i++\<close> on the loop counter, a floating-point number that starts at 1: the sum is exact
  below \<open>2\<^sup>5\<^sup>3\<close>, and there \<open>i + 1\<close> rounds back to \<open>i\<close>.
\<close>

definition increment :: "int \<Rightarrow> int" where
  "increment i = (if i < 9007199254740992 then i + 1 else i)"

text \<open>
  The inner loop \<open>for (let i = 1; i <= qty; i++) pool.push({ name, couponNumber: i })\<close>.
  Every round makes the array longer, so the loop ends: it leaves the pool, or a
  \<open>push\<close> throws, which is the result \<open>None\<close>.
\<close>

function push_coupons ::
  "string \<Rightarrow> jsnum \<Rightarrow> int \<Rightarrow> coupon list \<Rightarrow> coupon list option" where
  "push_coupons nm qty i pool =
     (if js_le (Fin (of_int i)) qty then
        (if length pool < array_max then push_coupons nm qty (increment i) (pool @ [(nm, i)])
         else None)
      else Some pool)"
  by pat_completeness auto
termination
  by (relation "measure (\<lambda>(nm, qty, i, pool). array_max - length pool)") auto

declare push_coupons.simps [simp del]

text \<open>
  The outer loop \<open>for (const p of participants)\<close>, the pool being the accumulator; an
  exception of the inner loop ends it.
\<close>

fun pool_loop :: "string set \<Rightarrow> participant list \<Rightarrow> coupon list \<Rightarrow> coupon list option" where
  "pool_loop wset [] pool = Some pool"
| "pool_loop wset (p # ps) pool =
     (if toLowerCase (p_name p) \<in> wset then pool_loop wset ps pool
      else (case push_coupons (p_name p) (Math_max (Fin 0) (or_zero (p_qty p))) 1 pool of
              None \<Rightarrow> None
            | Some pool' \<Rightarrow> pool_loop wset ps pool'))"

text \<open>
  \<open>couponsPool\<close>, with \<open>None\<close> when building it throws; \<open>drawCore\<close> rebuilds its
  \<open>currentPool\<close> with the same two loops.
\<close>

definition couponsPool :: "participant list \<Rightarrow> winner list \<Rightarrow> coupon list option" where
  "couponsPool ps ws = pool_loop (winnersSet ws) ps []"

section \<open>Participant registry\<close>

definition addParticipant :: "string \<Rightarrow> string \<Rightarrow> state \<Rightarrow> state \<times> notice option" where
  "addParticipant pName pQty s =
     (let name = trim pName; qty = Number pQty in
      if name = [] \<or> \<not> isFinite qty \<or> js_le qty (Fin 0) then (s, None)
      else if \<exists>x \<in> set (participants s). toLowerCase (p_name x) = toLowerCase name
        then (s, Some NameAlreadyRegistered)
      else (s\<lparr>participants := participants s @ [\<lparr>p_name = name, p_qty = qty\<rparr>]\<rparr>, None))"

definition editParticipantQty :: "string \<Rightarrow> string \<Rightarrow> state \<Rightarrow> state" where
  "editParticipantQty name newQty s =
     (let qty = Math_max (Fin 0) (or_zero (Number newQty)) in
      s\<lparr>participants := map (\<lambda>p. if p_name p = name then p\<lparr>p_qty := qty\<rparr> else p) (participants s)\<rparr>)"

definition removeParticipant :: "string \<Rightarrow> state \<Rightarrow> state" where
  "removeParticipant name s = s\<lparr>participants := filter (\<lambda>p. p_name p \<noteq> name) (participants s)\<rparr>"

definition is_newline :: "char \<Rightarrow> bool" where
  "is_newline c = (c = CHR 0x0A)"

definition is_separator :: "char \<Rightarrow> bool" where
  "is_separator c = (c \<in> set [CHR '','', CHR '';'', CHR 0x09])"

text \<open>
  The loop of \<open>bulkImport\<close> over the lines, with \<open>toAdd\<close> and \<open>skipped\<close> as
  accumulators; \<open>parts[0] || ""\<close> and \<open>parts[1] || "0"\<close> are the two \<open>case\<close>s.
\<close>

fun import_lines ::
  "string set \<Rightarrow> string list \<Rightarrow> participant list \<Rightarrow> nat \<Rightarrow> participant list \<times> nat" where
  "import_lines lowerExisting [] toAdd skipped = (toAdd, skipped)"
| "import_lines lowerExisting (line # rest) toAdd skipped =
     (let parts = filter (\<lambda>x. x \<noteq> []) (map trim (split_at is_separator line));
          name = (case parts of [] \<Rightarrow> [] | x # _ \<Rightarrow> x);
          qty = Number (case parts of _ # y # _ \<Rightarrow> y | _ \<Rightarrow> ''0'')
      in if name = [] \<or> \<not> isFinite qty \<or> js_le qty (Fin 0)
           then import_lines lowerExisting rest toAdd (skipped + 1)
         else if toLowerCase name \<in> lowerExisting
                 \<or> (\<exists>x \<in> set toAdd. toLowerCase (p_name x) = toLowerCase name)
           then import_lines lowerExisting rest toAdd (skipped + 1)
         else import_lines lowerExisting rest (toAdd @ [\<lparr>p_name = name, p_qty = qty\<rparr>]) skipped)"

definition bulkImport :: "string \<Rightarrow> state \<Rightarrow> state \<times> notice option" where
  "bulkImport raw s =
     (let lines = filter (\<lambda>l. l \<noteq> []) (map trim (split_runs is_newline raw)) in
      if lines = [] then (s, None)
      else
        let lowerExisting = set (map (\<lambda>p. toLowerCase (p_name p)) (participants s));
            (toAdd, skipped) = import_lines lowerExisting lines [] 0
        in (s\<lparr>participants := participants s @ toAdd\<rparr>,
            if skipped \<noteq> 0 then Some (LinesIgnored skipped) else None))"

section \<open>Prize registry\<close>

definition addPrize :: "string \<Rightarrow> state \<Rightarrow> state" where
  "addPrize prizeName s =
     (let nm = trim prizeName in
      if nm = [] then s
      else s\<lparr>prizes := prizes s @ [\<lparr>pr_name = nm, pr_order = length (prizes s) + 1\<rparr>]\<rparr>)"

definition removePrize :: "string \<Rightarrow> state \<Rightarrow> state" where
  "removePrize name s =
     s\<lparr>prizes := map (\<lambda>(i, p). p\<lparr>pr_order := i + 1\<rparr>)
                    (enumerate 0 (filter (\<lambda>p. pr_name p \<noteq> name) (prizes s)))\<rparr>"

section \<open>Resets\<close>

definition resetWinners :: "state \<Rightarrow> state" where
  "resetWinners s = s\<lparr>winners := [], highlight := None\<rparr>"

text \<open>The argument is the answer to the \<open>confirm\<close> dialogue.\<close>

definition hardReset :: "bool \<Rightarrow> state \<Rightarrow> state" where
  "hardReset confirmed s =
     (if \<not> confirmed then s
      else s\<lparr>participants := [], prizes := [], winners := [], audit := [], highlight := None\<rparr>)"

section \<open>Draw engine\<close>

text \<open>
  \<open>drawCore\<close>, given the value of \<open>Math.random()\<close> and the clock. It returns the new
  state, the notice shown and the winner (\<open>None\<close> for \<open>null\<close>). Reading
  \<open>currentPool[idx]\<close> outside the array gives \<open>undefined\<close>, whose \<open>name\<close> throws.
\<close>

definition drawCore ::
  "state \<Rightarrow> rat \<Rightarrow> clock \<Rightarrow> (state \<times> notice option \<times> winner option) outcome" where
  "drawCore s random now =
     (case couponsPool (participants s) (winners s) of
        None \<Rightarrow> Throws
      | Some currentPool \<Rightarrow>
          let currentRemaining = remainingPrizes (prizes s) (winners s) in
          if currentPool = [] then Returns (s, Some NoEligibleCoupons, None)
          else (case currentRemaining of
             [] \<Rightarrow> Returns (s, Some NoPrizesLeft, None)
           | prize # _ \<Rightarrow>
               let idx = \<lfloor>random * of_nat (length currentPool)\<rfloor> in
               if idx < 0 \<or> int (length currentPool) \<le> idx then Throws
               else
                 let pick = currentPool ! nat idx;
                     win = \<lparr>w_name = fst pick, w_couponNumber = snd pick,
                            w_prize = pr_name prize, w_ts = toISOString now\<rparr>;
                     row = \<lparr>Data = toLocaleDateString now, Hora = toLocaleTimeString now,
                            Participante = fst pick, Cupom = snd pick,
                            Qtde_Cupons =
                              (case find (\<lambda>p. p_name p = fst pick) (participants s) of
                                 None \<Rightarrow> Fin 0 | Some p \<Rightarrow> or_zero (p_qty p)),
                            Premio = pr_name prize\<rparr>
                 in Returns (s\<lparr>winners := winners s @ [win], audit := audit s @ [row],
                               highlight := Some win\<rparr>, None, Some win)))"

definition draw ::
  "state \<Rightarrow> rat \<Rightarrow> clock \<Rightarrow> (state \<times> notice option \<times> winner option) outcome" where
  "draw s random now =
     (if rolling s \<or> countdown s \<noteq> 0 then Returns (s, None, None) else drawCore s random now)"

text \<open>
  \<open>drawWithCountdown\<close> as one step: the guard, the shortcut to \<open>drawCore\<close> when a
  precondition fails, and otherwise the draw that ends the countdown and the rolling
  phase, after which \<open>countdown\<close> is 0 and \<open>rolling\<close> is false again. The timers, the
  frames shown while rolling and events arriving in between are not modelled.
\<close>

definition drawWithCountdown ::
  "state \<Rightarrow> rat \<Rightarrow> clock \<Rightarrow> (state \<times> notice option \<times> winner option) outcome" where
  "drawWithCountdown s random now =
     (if rolling s \<or> countdown s \<noteq> 0 then Returns (s, None, None)
      else (case couponsPool (participants s) (winners s) of
         None \<Rightarrow> Throws
       | Some pool \<Rightarrow>
           let hasPool = (pool \<noteq> []);
               hasPrize = (remainingPrizes (prizes s) (winners s) \<noteq> [])
           in if \<not> hasPool \<or> \<not> hasPrize then drawCore s random now
              else drawCore (s\<lparr>countdown := 0, rolling := False\<rparr>) random now))"

section \<open>Sessions\<close>

text \<open>
  The user's actions, each with what it reads from the page, and the states a session
  reaches from the empty store. A session stops at a callback that throws.
\<close>

datatype event =
    AddParticipant string string
  | EditParticipantQty string string
  | RemoveParticipant string
  | BulkImport string
  | AddPrize string
  | RemovePrize string
  | ResetWinners
  | HardReset bool
  | Draw rat clock
  | DrawWithCountdown rat clock
  | CloseOverlay
  | ClearAudit

definition returned_state :: "(state \<times> notice option \<times> winner option) outcome \<Rightarrow> state option" where
  "returned_state r = (case r of Returns (s, _, _) \<Rightarrow> Some s | _ \<Rightarrow> None)"

fun step :: "event \<Rightarrow> state \<Rightarrow> state option" where
  "step (AddParticipant pName pQty) s = Some (fst (addParticipant pName pQty s))"
| "step (EditParticipantQty name newQty) s = Some (editParticipantQty name newQty s)"
| "step (RemoveParticipant name) s = Some (removeParticipant name s)"
| "step (BulkImport raw) s = Some (fst (bulkImport raw s))"
| "step (AddPrize prizeName) s = Some (addPrize prizeName s)"
| "step (RemovePrize name) s = Some (removePrize name s)"
| "step ResetWinners s = Some (resetWinners s)"
| "step (HardReset confirmed) s = Some (hardReset confirmed s)"
| "step (Draw random now) s = returned_state (draw s random now)"
| "step (DrawWithCountdown random now) s = returned_state (drawWithCountdown s random now)"
| "step CloseOverlay s = Some (s\<lparr>highlight := None\<rparr>)"
| "step ClearAudit s = Some (s\<lparr>audit := []\<rparr>)"

fun run :: "event list \<Rightarrow> state \<Rightarrow> state option" where
  "run [] s = Some s"
| "run (e # es) s = (case step e s of None \<Rightarrow> None | Some s' \<Rightarrow> run es s')"

section \<open>Notions of the specification\<close>

text \<open>
  The specification's words, as definitions of their own, to state the properties with:
  the participants still in play, the whole tickets a count stands for, the pool as the
  specification describes it, and the shapes of the registries.
\<close>

definition eligible :: "participant list \<Rightarrow> winner list \<Rightarrow> participant list" where
  "eligible ps ws = filter (\<lambda>p. toLowerCase (p_name p) \<notin> winnersSet ws) ps"

definition whole_tickets :: "jsnum \<Rightarrow> int" where
  "whole_tickets x = (case x of Fin r \<Rightarrow> max 0 \<lfloor>r\<rfloor> | _ \<Rightarrow> 0)"

definition spec_pool :: "participant list \<Rightarrow> winner list \<Rightarrow> coupon list" where
  "spec_pool ps ws =
     concat (map (\<lambda>p. map (Pair (p_name p)) [1..whole_tickets (p_qty p)]) (eligible ps ws))"

definition count_value :: "jsnum \<Rightarrow> rat" where
  "count_value x = (case x of Fin r \<Rightarrow> r | _ \<Rightarrow> 0)"

definition nonneg_integer :: "jsnum \<Rightarrow> bool" where
  "nonneg_integer x = (case x of Fin r \<Rightarrow> 0 \<le> r \<and> of_int \<lfloor>r\<rfloor> = r | _ \<Rightarrow> False)"

definition positive_integer :: "jsnum \<Rightarrow> bool" where
  "positive_integer x = (case x of Fin r \<Rightarrow> 0 < r \<and> of_int \<lfloor>r\<rfloor> = r | _ \<Rightarrow> False)"

definition positive_finite :: "jsnum \<Rightarrow> bool" where
  "positive_finite x = (case x of Fin r \<Rightarrow> 0 < r | _ \<Rightarrow> False)"

definition unique_names :: "participant list \<Rightarrow> bool" where
  "unique_names ps = distinct (map (\<lambda>p. toLowerCase (p_name p)) ps)"

definition contiguous :: "prize list \<Rightarrow> bool" where
  "contiguous prs = (map pr_order prs = [1..<Suc (length prs)])"

fun is_registration :: "event \<Rightarrow> bool" where
  "is_registration (AddParticipant _ _) = True"
| "is_registration (BulkImport _) = True"
| "is_registration _ = False"

text \<open>
  What every session keeps true of the winner ledger and the prize registry: no prize
  name twice in the ledger, the draw orders 1 to N in list order.
\<close>

definition ledger_ok :: "state \<Rightarrow> bool" where
  "ledger_ok s \<longleftrightarrow> distinct (map w_prize (winners s)) \<and> contiguous (prizes s)"

section \<open>The ticket pool\<close>

text \<open>
  The inner loop in closed form. With a finite bound it appends the tickets from the
  counter up to the floor of the bound when the array has room for them all, and throws
  when it has not; with the bound \<open>Infinity\<close> it always throws. The counter stays
  below \<open>2\<^sup>5\<^sup>3\<close> wherever the loop returns, because the array is full long before.
\<close>

lemma push_coupons_Fin_Some:
  assumes "\<lfloor>q\<rfloor> < 9007199254740992"
    and "i \<le> \<lfloor>q\<rfloor> \<longrightarrow> int (length pool) + (\<lfloor>q\<rfloor> + 1 - i) \<le> int array_max"
  shows "push_coupons nm (Fin q) i pool = Some (pool @ map (Pair nm) [i..\<lfloor>q\<rfloor>])"
  using assms(2)
proof (induction "nat (\<lfloor>q\<rfloor> + 1 - i)" arbitrary: i pool)
  case 0
  then have "\<not> of_int i \<le> q" using le_floor_iff [of i q] by linarith
  moreover from 0 have "[i..\<lfloor>q\<rfloor>] = []" by simp
  ultimately show ?case by (subst push_coupons.simps) simp
next
  case (Suc n)
  then have le: "i \<le> \<lfloor>q\<rfloor>" by linarith
  then have c: "of_int i \<le> q" using le_floor_iff [of i q] by simp
  from le Suc.prems have room: "length pool < array_max" by linarith
  from le assms(1) have "i < 9007199254740992" by linarith
  then have inc: "increment i = i + 1" by (simp add: increment_def)
  from Suc have "n = nat (\<lfloor>q\<rfloor> + 1 - (i + 1))" by linarith
  moreover from le Suc.prems
  have "i + 1 \<le> \<lfloor>q\<rfloor> \<longrightarrow> int (length (pool @ [(nm, i)])) + (\<lfloor>q\<rfloor> + 1 - (i + 1)) \<le> int array_max"
    by simp
  ultimately have "push_coupons nm (Fin q) (i + 1) (pool @ [(nm, i)])
               = Some ((pool @ [(nm, i)]) @ map (Pair nm) [i + 1..\<lfloor>q\<rfloor>])"
    by (rule Suc.hyps(1))
  moreover have "[i..\<lfloor>q\<rfloor>] = i # [i + 1..\<lfloor>q\<rfloor>]" using le by (simp add: upto_rec1)
  ultimately show ?case using c room inc by (subst push_coupons.simps) simp
qed

lemma push_coupons_Fin_None:
  "i \<le> \<lfloor>q\<rfloor> \<Longrightarrow> int array_max < int (length pool) + (\<lfloor>q\<rfloor> + 1 - i) \<Longrightarrow>
   push_coupons nm (Fin q) i pool = None"
proof (induction "array_max - length pool" arbitrary: i pool)
  case 0
  then have "\<not> length pool < array_max" by simp
  moreover from 0 have "of_int i \<le> q" using le_floor_iff [of i q] by simp
  ultimately show ?case by (subst push_coupons.simps) simp
next
  case (Suc n)
  then have room: "length pool < array_max" by linarith
  from Suc.prems have c: "of_int i \<le> q" using le_floor_iff [of i q] by simp
  from Suc.hyps(2) have "n = array_max - length (pool @ [(nm, i)])" by simp
  moreover from Suc.prems room have "increment i \<le> \<lfloor>q\<rfloor>"
    by (simp add: increment_def)
  moreover from Suc.prems room
  have "int array_max < int (length (pool @ [(nm, i)])) + (\<lfloor>q\<rfloor> + 1 - increment i)"
    by (simp add: increment_def)
  ultimately have "push_coupons nm (Fin q) (increment i) (pool @ [(nm, i)]) = None"
    by (rule Suc.hyps(1))
  then show ?case using c room by (subst push_coupons.simps) simp
qed

lemma push_coupons_PosInf: "push_coupons nm PosInf i pool = None"
proof (induction "array_max - length pool" arbitrary: i pool)
  case 0
  then show ?case by (subst push_coupons.simps) simp
next
  case (Suc n)
  then have "n = array_max - length (pool @ [(nm, i)])" by simp
  then have "push_coupons nm PosInf (increment i) (pool @ [(nm, i)]) = None"
    by (rule Suc.hyps(1))
  then show ?case by (subst push_coupons.simps) simp
qed

lemma clamp_cases:
  "Math_max (Fin 0) (or_zero x) =
     (case x of Fin r \<Rightarrow> Fin (max 0 r) | PosInf \<Rightarrow> PosInf | _ \<Rightarrow> Fin 0)"
  by (cases x) (auto simp: Math_max_def or_zero_def max_def)

lemma floor_max_0: "\<lfloor>max 0 r\<rfloor> = max 0 \<lfloor>r :: rat\<rfloor>"
  by (simp add: max_def floor_mono)

lemma array_max_small: "int array_max < 9007199254740992"
  by (simp add: array_max_def)

lemma push_Fin_nonneg:
  assumes "0 \<le> r" and "length pool \<le> array_max"
  shows "push_coupons nm (Fin r) 1 pool =
     (if int (length pool) + \<lfloor>r\<rfloor> \<le> int array_max
      then Some (pool @ map (Pair nm) [1..\<lfloor>r\<rfloor>]) else None)"
proof (cases "int (length pool) + \<lfloor>r\<rfloor> \<le> int array_max")
  case True
  then have "\<lfloor>r\<rfloor> < 9007199254740992" using array_max_small by linarith
  moreover from True have "1 \<le> \<lfloor>r\<rfloor> \<longrightarrow> int (length pool) + (\<lfloor>r\<rfloor> + 1 - 1) \<le> int array_max"
    by simp
  ultimately have "push_coupons nm (Fin r) 1 pool = Some (pool @ map (Pair nm) [1..\<lfloor>r\<rfloor>])"
    by (rule push_coupons_Fin_Some)
  with True show ?thesis by simp
next
  case False
  with assms(2) have "1 \<le> \<lfloor>r\<rfloor>" by linarith
  moreover from False have "int array_max < int (length pool) + (\<lfloor>r\<rfloor> + 1 - 1)" by simp
  ultimately have "push_coupons nm (Fin r) 1 pool = None"
    by (rule push_coupons_Fin_None)
  with False show ?thesis by simp
qed

lemma push_clamped:
  assumes "length pool \<le> array_max"
  shows "push_coupons nm (Math_max (Fin 0) (or_zero x)) 1 pool =
     (if x \<noteq> PosInf \<and> int (length pool) + whole_tickets x \<le> int array_max
      then Some (pool @ map (Pair nm) [1..whole_tickets x]) else None)"
proof (cases x)
  case (Fin r)
  have "push_coupons nm (Fin (max 0 r)) 1 pool =
     (if int (length pool) + \<lfloor>max 0 r\<rfloor> \<le> int array_max
      then Some (pool @ map (Pair nm) [1..\<lfloor>max 0 r\<rfloor>]) else None)"
    using assms by (intro push_Fin_nonneg) simp_all
  with Fin show ?thesis
    by (simp add: clamp_cases whole_tickets_def floor_max_0)
next
  case PosInf
  then show ?thesis by (simp add: clamp_cases push_coupons_PosInf)
next
  case NaN
  with push_Fin_nonneg [of 0 pool nm] assms show ?thesis
    by (simp add: clamp_cases whole_tickets_def)
next
  case NegInf
  with push_Fin_nonneg [of 0 pool nm] assms show ?thesis
    by (simp add: clamp_cases whole_tickets_def)
qed

lemma whole_tickets_nonneg: "0 \<le> whole_tickets x"
  by (simp add: whole_tickets_def split: jsnum.splits)

lemma sum_whole_tickets_nonneg: "0 \<le> sum_list (map (\<lambda>p. whole_tickets (p_qty p)) xs)"
  by (induction xs) (simp_all add: whole_tickets_nonneg)

text \<open>The outer loop, for any pool so far that is an array.\<close>

lemma pool_loop_char:
  "length pool \<le> array_max \<Longrightarrow>
   pool_loop W ps pool =
     (if (\<forall>p \<in> set ps. toLowerCase (p_name p) \<notin> W \<longrightarrow> p_qty p \<noteq> PosInf) \<and>
         int (length pool) + sum_list (map (\<lambda>p. whole_tickets (p_qty p))
              (filter (\<lambda>p. toLowerCase (p_name p) \<notin> W) ps)) \<le> int array_max
      then Some (pool @ concat (map (\<lambda>p. map (Pair (p_name p)) [1..whole_tickets (p_qty p)])
                           (filter (\<lambda>p. toLowerCase (p_name p) \<notin> W) ps)))
      else None)"
proof (induction ps arbitrary: pool)
  case Nil
  then show ?case by simp
next
  case (Cons p ps)
  show ?case
  proof (cases "toLowerCase (p_name p) \<in> W")
    case True
    with Cons.IH [OF Cons.prems] show ?thesis by auto
  next
    case False
    let ?t = "whole_tickets (p_qty p)"
    let ?rest = "sum_list (map (\<lambda>p. whole_tickets (p_qty p))
              (filter (\<lambda>p. toLowerCase (p_name p) \<notin> W) ps))"
    have t: "0 \<le> ?t" by (rule whole_tickets_nonneg)
    have r: "0 \<le> ?rest" by (rule sum_whole_tickets_nonneg)
    show ?thesis
    proof (cases "p_qty p \<noteq> PosInf \<and> int (length pool) + ?t \<le> int array_max")
      case True
      let ?pool' = "pool @ map (Pair (p_name p)) [1..?t]"
      from True t have len: "int (length ?pool') = int (length pool) + ?t"
        by simp
      with True have "length ?pool' \<le> array_max" by linarith
      from Cons.IH [OF this] False True Cons.prems len show ?thesis
        by (auto simp: push_clamped add.assoc)
    next
      case False': False
      with False Cons.prems r show ?thesis
        by (auto simp: push_clamped)
    qed
  qed
qed

lemma length_spec_pool:
  "int (length (spec_pool ps ws)) = sum_list (map (\<lambda>p. whole_tickets (p_qty p)) (eligible ps ws))"
proof -
  have "int (length (concat (map (\<lambda>p. map (Pair (p_name p)) [1..whole_tickets (p_qty p)]) xs)))
          = sum_list (map (\<lambda>p. whole_tickets (p_qty p)) xs)" for xs :: "participant list"
    using whole_tickets_nonneg by (induction xs) (simp_all add: nat_0_le)
  then show ?thesis by (simp add: spec_pool_def)
qed

lemma couponsPool_char:
  "couponsPool ps ws =
     (if (\<forall>p \<in> set (eligible ps ws). p_qty p \<noteq> PosInf) \<and> length (spec_pool ps ws) \<le> array_max
      then Some (spec_pool ps ws) else None)"
proof -
  have "length (spec_pool ps ws) \<le> array_max \<longleftrightarrow>
      sum_list (map (\<lambda>p. whole_tickets (p_qty p)) (eligible ps ws)) \<le> int array_max"
    using length_spec_pool [of ps ws] by linarith
  then show ?thesis
    using pool_loop_char [of "[]" "winnersSet ws" ps]
    by (auto simp: couponsPool_def spec_pool_def eligible_def)
qed

lemma couponsPool_Some:
  "\<forall>p \<in> set (eligible ps ws). p_qty p \<noteq> PosInf \<Longrightarrow> length (spec_pool ps ws) \<le> array_max \<Longrightarrow>
   couponsPool ps ws = Some (spec_pool ps ws)"
  by (simp add: couponsPool_char)

lemma whole_tickets_integer:
  "nonneg_integer x \<Longrightarrow> of_int (whole_tickets x) = count_value x"
  by (cases x) (auto simp: nonneg_integer_def whole_tickets_def count_value_def max_def)

text \<open>
  Claim C2, as amended. The pool of the specification holds, for every participant
  whose lower-cased name is not among the lower-cased winner names, in registry order,
  one entry per whole ticket number from 1 up to the floor of the ticket count (none for
  a count that is NaN, zero or negative). \<open>couponsPool\<close> builds exactly this pool when
  no such participant has the count \<open>Infinity\<close> and the pool has at most
  \<open>2\<^sup>3\<^sup>2 - 1\<close> entries, the most an array holds; otherwise it builds no pool, the
  loop ending in an exception. The size of the pool is the sum of the whole tickets; it
  is the sum of the ticket counts whenever every count in play is a non-negative integer.
\<close>

theorem couponsPool_spec:
  "couponsPool ps ws =
     (if (\<forall>p \<in> set (eligible ps ws). p_qty p \<noteq> PosInf) \<and> length (spec_pool ps ws) \<le> array_max
      then Some (spec_pool ps ws) else None) \<and>
   int (length (spec_pool ps ws)) = sum_list (map (whole_tickets \<circ> p_qty) (eligible ps ws)) \<and>
   ((\<forall>p \<in> set (eligible ps ws). nonneg_integer (p_qty p)) \<longrightarrow>
      of_nat (length (spec_pool ps ws)) = sum_list (map (count_value \<circ> p_qty) (eligible ps ws)))"
proof (intro conjI impI)
  show "couponsPool ps ws =
     (if (\<forall>p \<in> set (eligible ps ws). p_qty p \<noteq> PosInf) \<and> length (spec_pool ps ws) \<le> array_max
      then Some (spec_pool ps ws) else None)"
    by (rule couponsPool_char)
  show len: "int (length (spec_pool ps ws)) = sum_list (map (whole_tickets \<circ> p_qty) (eligible ps ws))"
    by (simp add: length_spec_pool comp_def)
  assume ints: "\<forall>p \<in> set (eligible ps ws). nonneg_integer (p_qty p)"
  have "rat_of_nat (length (spec_pool ps ws)) = of_int (int (length (spec_pool ps ws)))"
    by simp
  also have "\<dots> = of_int (sum_list (map (whole_tickets \<circ> p_qty) (eligible ps ws)))"
    by (simp only: len)
  also have "\<dots> = sum_list (map (count_value \<circ> p_qty) (eligible ps ws))"
  proof -
    have "\<forall>p \<in> set xs. nonneg_integer (p_qty p) \<Longrightarrow>
          rat_of_int (sum_list (map (whole_tickets \<circ> p_qty) xs)) = sum_list (map (count_value \<circ> p_qty) xs)"
      for xs :: "participant list"
      by (induction xs) (simp_all add: whole_tickets_integer)
    then show ?thesis using ints by blast
  qed
  finally show "of_nat (length (spec_pool ps ws)) = sum_list (map (count_value \<circ> p_qty) (eligible ps ws))" .
qed

text \<open>
  A registry of two, one of whom has won under another spelling of the name; a count
  beyond what an array holds; the count \<open>Infinity\<close>.
\<close>

theorem couponsPool_spec_witness:
  "couponsPool [\<lparr>p_name = ''Rafael'', p_qty = Fin 3\<rparr>, \<lparr>p_name = ''Juliana'', p_qty = Fin 2\<rparr>]
       [\<lparr>w_name = ''RAFAEL'', w_couponNumber = 1, w_prize = ''P1'', w_ts = ''t''\<rparr>]
     = Some [(''Juliana'', 1), (''Juliana'', 2)] \<and>
   sum_list (map (count_value \<circ> p_qty)
     (eligible [\<lparr>p_name = ''Rafael'', p_qty = Fin 3\<rparr>, \<lparr>p_name = ''Juliana'', p_qty = Fin 2\<rparr>]
       [\<lparr>w_name = ''RAFAEL'', w_couponNumber = 1, w_prize = ''P1'', w_ts = ''t''\<rparr>])) = 2 \<and>
   couponsPool [\<lparr>p_name = ''Ana'', p_qty = Fin 9007199254740994\<rparr>] [] = None \<and>
   couponsPool [\<lparr>p_name = ''Ana'', p_qty = PosInf\<rparr>] [] = None"
proof -
  let ?ps = "[\<lparr>p_name = ''Rafael'', p_qty = Fin 3\<rparr>, \<lparr>p_name = ''Juliana'', p_qty = Fin 2\<rparr>]"
  let ?ws = "[\<lparr>w_name = ''RAFAEL'', w_couponNumber = 1, w_prize = ''P1'', w_ts = ''t''\<rparr>]"
  let ?big = "[\<lparr>p_name = ''Ana'', p_qty = Fin 9007199254740994\<rparr>]"
  let ?inf = "[\<lparr>p_name = ''Ana'', p_qty = PosInf\<rparr>]"
  have e: "eligible ?ps ?ws = [\<lparr>p_name = ''Juliana'', p_qty = Fin 2\<rparr>]"
    by (simp add: eligible_def winnersSet_def toLowerCase_def lower_char_def)
  have ints: "\<forall>p \<in> set (eligible ?ps ?ws). nonneg_integer (p_qty p)"
    by (simp add: e nonneg_integer_def)
  have sp: "spec_pool ?ps ?ws = [(''Juliana'', 1), (''Juliana'', 2)]"
    by (simp add: spec_pool_def e whole_tickets_def upto_rec1)
  from couponsPool_spec [of ?ps ?ws] ints
  have a: "couponsPool ?ps ?ws = Some [(''Juliana'', 1), (''Juliana'', 2)] \<and>
      sum_list (map (count_value \<circ> p_qty) (eligible ?ps ?ws)) = 2"
    by (simp add: e sp array_max_def)
  have eb: "eligible ?big [] = ?big"
    by (simp add: eligible_def winnersSet_def)
  from couponsPool_spec [of ?big "[]"]
  have "int (length (spec_pool ?big [])) = 9007199254740994"
    by (simp add: eb whole_tickets_def)
  then have "\<not> length (spec_pool ?big []) \<le> array_max"
    by (simp add: array_max_def)
  with couponsPool_spec [of ?big "[]"] have b: "couponsPool ?big [] = None"
    by simp
  have ei: "eligible ?inf [] = ?inf"
    by (simp add: eligible_def winnersSet_def)
  from couponsPool_spec [of ?inf "[]"] have c: "couponsPool ?inf [] = None"
    by (simp add: ei)
  from a b c show ?thesis by blast
qed

text \<open>
  The size of the pool is not the sum of the ticket counts in general: registering
  \<open>2.5\<close> tickets is accepted, and the pool then holds two entries.
\<close>

theorem pool_size_counterexample:
  "run [AddParticipant ''Ana'' ''2.5''] init_state
     = Some (init_state\<lparr>participants := [\<lparr>p_name = ''Ana'', p_qty = Fin (5 / 2)\<rparr>]\<rparr>) \<and>
   couponsPool [\<lparr>p_name = ''Ana'', p_qty = Fin (5 / 2)\<rparr>] [] = Some [(''Ana'', 1), (''Ana'', 2)] \<and>
   sum_list (map (count_value \<circ> p_qty) (eligible [\<lparr>p_name = ''Ana'', p_qty = Fin (5 / 2)\<rparr>] [])) = 5 / 2 \<and>
   rat_of_nat (length [(''Ana'', 1 :: int), (''Ana'', 2)]) \<noteq> 5 / 2"
proof -
  have n: "Number ''2.5'' = Fin (5 / 2)"
    by (simp add: Number_def trim_def is_ws_def parse_decimal_def is_digit_def digit_val_def
          to_nat_def pow10_def)
  have t: "trim ''Ana'' = ''Ana''"
    by (simp add: trim_def is_ws_def)
  have r: "run [AddParticipant ''Ana'' ''2.5''] init_state
     = Some (init_state\<lparr>participants := [\<lparr>p_name = ''Ana'', p_qty = Fin (5 / 2)\<rparr>]\<rparr>)"
    by (simp add: addParticipant_def n t isFinite_def init_state_def)
  have e: "eligible [\<lparr>p_name = ''Ana'', p_qty = Fin (5 / 2)\<rparr>] [] = [\<lparr>p_name = ''Ana'', p_qty = Fin (5 / 2)\<rparr>]"
    by (simp add: eligible_def winnersSet_def)
  have sp: "spec_pool [\<lparr>p_name = ''Ana'', p_qty = Fin (5 / 2)\<rparr>] [] = [(''Ana'', 1), (''Ana'', 2)]"
    by (simp add: spec_pool_def e whole_tickets_def upto_rec1)
  have c: "couponsPool [\<lparr>p_name = ''Ana'', p_qty = Fin (5 / 2)\<rparr>] [] = Some [(''Ana'', 1), (''Ana'', 2)]"
    using couponsPool_Some [of "[\<lparr>p_name = ''Ana'', p_qty = Fin (5 / 2)\<rparr>]" "[]"]
    by (simp add: e sp array_max_def)
  show ?thesis using r c by (simp add: e count_value_def)
qed

section \<open>Removing and renumbering prizes\<close>

text \<open>
  Renumbering a list from \<open>n\<close> on keeps the names and writes the draw orders
  \<open>n + 1\<close>, \<open>n + 2\<close> and so on; on a list already numbered that way it changes nothing.
\<close>

lemma renumber_names:
  "map pr_name (map (\<lambda>(i, p). p\<lparr>pr_order := i + 1\<rparr>) (enumerate n xs)) = map pr_name xs"
  by (induction xs arbitrary: n) simp_all

lemma renumber_orders:
  "map pr_order (map (\<lambda>(i, p). p\<lparr>pr_order := i + 1\<rparr>) (enumerate n xs)) = map Suc [n..<n + length xs]"
  by (induction xs arbitrary: n) (simp_all add: upt_conv_Cons del: upt_Suc)

lemma renumber_id:
  "map pr_order xs = map Suc [n..<n + length xs] \<Longrightarrow>
   map (\<lambda>(i, p). p\<lparr>pr_order := i + 1\<rparr>) (enumerate n xs) = xs"
  by (induction xs arbitrary: n) (simp_all add: upt_conv_Cons del: upt_Suc)

lemma contiguous_iff: "contiguous prs \<longleftrightarrow> map pr_order prs = map Suc [0..<0 + length prs]"
  by (simp add: contiguous_def map_Suc_upt del: upt_Suc)

lemma contiguous_removePrize: "contiguous (prizes (removePrize name s))"
  using renumber_orders [of 0 "filter (\<lambda>p. pr_name p \<noteq> name) (prizes s)"]
  by (simp only: contiguous_iff) (simp add: removePrize_def)

lemma names_removePrize:
  "map pr_name (prizes (removePrize name s)) = filter (\<lambda>n. n \<noteq> name) (map pr_name (prizes s))"
  using renumber_names [of 0 "filter (\<lambda>p. pr_name p \<noteq> name) (prizes s)"]
  by (simp add: removePrize_def filter_map comp_def)

text \<open>
  Claim C7. After \<open>removePrize\<close> the draw orders are 1 to M in list order, M being the
  number of prizes whose name differs from the argument, and the names of the remaining
  prizes stand in the order they had before. This holds for every prize list, so in
  particular for one whose draw orders were 1 to N.
\<close>

theorem removePrize_renumbers:
  "map pr_order (prizes (removePrize name s)) = [1..<Suc (length (prizes (removePrize name s)))] \<and>
   length (prizes (removePrize name s)) = length (filter (\<lambda>p. pr_name p \<noteq> name) (prizes s)) \<and>
   map pr_name (prizes (removePrize name s)) = filter (\<lambda>n. n \<noteq> name) (map pr_name (prizes s))"
  using contiguous_removePrize [of name s] names_removePrize [of name s]
  by (simp add: contiguous_def) (simp add: removePrize_def)

text \<open>Removing the second of three prizes.\<close>

theorem removePrize_renumbers_witness:
  "map pr_order (prizes (removePrize ''P2'' (init_state\<lparr>prizes :=
      [\<lparr>pr_name = ''P1'', pr_order = 1\<rparr>, \<lparr>pr_name = ''P2'', pr_order = 2\<rparr>,
       \<lparr>pr_name = ''P3'', pr_order = 3\<rparr>]\<rparr>))) = [1, 2] \<and>
   map pr_name (prizes (removePrize ''P2'' (init_state\<lparr>prizes :=
      [\<lparr>pr_name = ''P1'', pr_order = 1\<rparr>, \<lparr>pr_name = ''P2'', pr_order = 2\<rparr>,
       \<lparr>pr_name = ''P3'', pr_order = 3\<rparr>]\<rparr>))) = [''P1'', ''P3'']"
  using removePrize_renumbers [of "''P2''" "init_state\<lparr>prizes :=
      [\<lparr>pr_name = ''P1'', pr_order = 1\<rparr>, \<lparr>pr_name = ''P2'', pr_order = 2\<rparr>,
       \<lparr>pr_name = ''P3'', pr_order = 3\<rparr>]\<rparr>"]
  by (simp add: upt_conv_Cons)

section \<open>Resets\<close>

text \<open>
  Claim C8. \<open>resetWinners\<close> empties the winner ledger and leaves the participant
  registry, the prize registry and the audit log as they were. \<open>hardReset\<close>, once
  confirmed, empties all four collections; when the confirmation is declined it changes
  nothing.
\<close>

theorem resets_frame:
  "winners (resetWinners s) = [] \<and>
   participants (resetWinners s) = participants s \<and>
   prizes (resetWinners s) = prizes s \<and>
   audit (resetWinners s) = audit s \<and>
   participants (hardReset True s) = [] \<and>
   prizes (hardReset True s) = [] \<and>
   winners (hardReset True s) = [] \<and>
   audit (hardReset True s) = [] \<and>
   hardReset False s = s"
  by (simp add: resetWinners_def hardReset_def)

text \<open>Both resets on a state with one prize and one winner.\<close>

theorem resets_frame_witness:
  "winners (resetWinners (init_state\<lparr>
       winners := [\<lparr>w_name = ''Ana'', w_couponNumber = 1, w_prize = ''P1'', w_ts = ''t''\<rparr>],
       prizes := [\<lparr>pr_name = ''P1'', pr_order = 1\<rparr>]\<rparr>)) = [] \<and>
   prizes (resetWinners (init_state\<lparr>
       winners := [\<lparr>w_name = ''Ana'', w_couponNumber = 1, w_prize = ''P1'', w_ts = ''t''\<rparr>],
       prizes := [\<lparr>pr_name = ''P1'', pr_order = 1\<rparr>]\<rparr>)) = [\<lparr>pr_name = ''P1'', pr_order = 1\<rparr>] \<and>
   prizes (hardReset True (init_state\<lparr>
       winners := [\<lparr>w_name = ''Ana'', w_couponNumber = 1, w_prize = ''P1'', w_ts = ''t''\<rparr>],
       prizes := [\<lparr>pr_name = ''P1'', pr_order = 1\<rparr>]\<rparr>)) = []"
  using resets_frame [of "init_state\<lparr>
       winners := [\<lparr>w_name = ''Ana'', w_couponNumber = 1, w_prize = ''P1'', w_ts = ''t''\<rparr>],
       prizes := [\<lparr>pr_name = ''P1'', pr_order = 1\<rparr>]\<rparr>"]
  by simp

section \<open>Removal by name\<close>

text \<open>
  Claim C10. Removal compares names by exact equality and removes every match:
  \<open>removeParticipant\<close> keeps exactly the participants whose stored name differs from the
  argument, \<open>removePrize\<close> keeps exactly the prize names that differ from the argument,
  so none of that name is left however many there were. With a name that no entry
  carries exactly (for instance one that differs in letter case only) the participant
  registry is unchanged, and so is a prize registry numbered 1 to N.
\<close>

theorem removal_exact_match:
  "participants (removeParticipant name s) = filter (\<lambda>p. p_name p \<noteq> name) (participants s) \<and>
   map pr_name (prizes (removePrize name s)) = filter (\<lambda>n. n \<noteq> name) (map pr_name (prizes s)) \<and>
   name \<notin> set (map pr_name (prizes (removePrize name s))) \<and>
   (name \<notin> set (map p_name (participants s)) \<longrightarrow> removeParticipant name s = s) \<and>
   (name \<notin> set (map pr_name (prizes s)) \<and> contiguous (prizes s) \<longrightarrow> removePrize name s = s)"
proof (intro conjI impI)
  show "participants (removeParticipant name s) = filter (\<lambda>p. p_name p \<noteq> name) (participants s)"
    by (simp add: removeParticipant_def)
  show n: "map pr_name (prizes (removePrize name s)) = filter (\<lambda>n. n \<noteq> name) (map pr_name (prizes s))"
    by (rule names_removePrize)
  show "name \<notin> set (map pr_name (prizes (removePrize name s)))"
    by (simp only: n) simp
  show "removeParticipant name s = s" if "name \<notin> set (map p_name (participants s))"
  proof -
    from that have "filter (\<lambda>p. p_name p \<noteq> name) (participants s) = participants s"
      by (auto intro: filter_True)
    then show ?thesis by (simp add: removeParticipant_def)
  qed
  show "removePrize name s = s" if "name \<notin> set (map pr_name (prizes s)) \<and> contiguous (prizes s)"
  proof -
    from that have f: "filter (\<lambda>p. pr_name p \<noteq> name) (prizes s) = prizes s"
      by (auto intro: filter_True)
    from that have "map pr_order (prizes s) = map Suc [0..<0 + length (prizes s)]"
      by (simp only: contiguous_iff)
    then have "map (\<lambda>(i, p). p\<lparr>pr_order := i + 1\<rparr>) (enumerate 0 (prizes s)) = prizes s"
      by (rule renumber_id)
    then show ?thesis by (simp add: removePrize_def f)
  qed
qed

text \<open>
  A name in another letter case removes nothing, although the two names are equal
  case-insensitively; one call removes both prizes of the same name.
\<close>

theorem removal_exact_match_witness:
  "toLowerCase ''alice'' = toLowerCase ''Alice'' \<and>
   removeParticipant ''alice'' (init_state\<lparr>participants := [\<lparr>p_name = ''Alice'', p_qty = Fin 1\<rparr>]\<rparr>)
     = init_state\<lparr>participants := [\<lparr>p_name = ''Alice'', p_qty = Fin 1\<rparr>]\<rparr> \<and>
   removePrize ''tv'' (init_state\<lparr>prizes := [\<lparr>pr_name = ''TV'', pr_order = 1\<rparr>]\<rparr>)
     = init_state\<lparr>prizes := [\<lparr>pr_name = ''TV'', pr_order = 1\<rparr>]\<rparr> \<and>
   map pr_name (prizes (removePrize ''TV'' (init_state\<lparr>prizes :=
      [\<lparr>pr_name = ''TV'', pr_order = 1\<rparr>, \<lparr>pr_name = ''Bike'', pr_order = 2\<rparr>,
       \<lparr>pr_name = ''TV'', pr_order = 3\<rparr>]\<rparr>))) = [''Bike'']"
proof -
  have l: "toLowerCase ''alice'' = toLowerCase ''Alice''"
    by (simp add: toLowerCase_def lower_char_def)
  have c: "contiguous [\<lparr>pr_name = ''TV'', pr_order = 1\<rparr>]"
    by (simp add: contiguous_def)
  from removal_exact_match [of "''alice''" "init_state\<lparr>participants := [\<lparr>p_name = ''Alice'', p_qty = Fin 1\<rparr>]\<rparr>"]
  have a: "removeParticipant ''alice'' (init_state\<lparr>participants := [\<lparr>p_name = ''Alice'', p_qty = Fin 1\<rparr>]\<rparr>)
     = init_state\<lparr>participants := [\<lparr>p_name = ''Alice'', p_qty = Fin 1\<rparr>]\<rparr>"
    by simp
  from removal_exact_match [of "''tv''" "init_state\<lparr>prizes := [\<lparr>pr_name = ''TV'', pr_order = 1\<rparr>]\<rparr>"] c
  have b: "removePrize ''tv'' (init_state\<lparr>prizes := [\<lparr>pr_name = ''TV'', pr_order = 1\<rparr>]\<rparr>)
     = init_state\<lparr>prizes := [\<lparr>pr_name = ''TV'', pr_order = 1\<rparr>]\<rparr>"
    by simp
  from removal_exact_match [of "''TV''" "init_state\<lparr>prizes :=
      [\<lparr>pr_name = ''TV'', pr_order = 1\<rparr>, \<lparr>pr_name = ''Bike'', pr_order = 2\<rparr>,
       \<lparr>pr_name = ''TV'', pr_order = 3\<rparr>]\<rparr>"]
  have d: "map pr_name (prizes (removePrize ''TV'' (init_state\<lparr>prizes :=
      [\<lparr>pr_name = ''TV'', pr_order = 1\<rparr>, \<lparr>pr_name = ''Bike'', pr_order = 2\<rparr>,
       \<lparr>pr_name = ''TV'', pr_order = 3\<rparr>]\<rparr>))) = [''Bike'']"
    by simp
  from l a b d show ?thesis by blast
qed

section \<open>Bulk import\<close>

text \<open>The four lines of the example, their numbers, and the loop over them.\<close>

lemma example_lines:
  "filter (\<lambda>l. l \<noteq> []) (map trim (split_runs is_newline
      ''A,5\<newline>B,-1\<newline>a,3\<newline>C,2''))
   = [''A,5'', ''B,-1'', ''a,3'', ''C,2'']"
  by (simp add: is_newline_def trim_def is_ws_def)

lemma example_numbers:
  "Number ''5'' = Fin 5" "Number ''-1'' = Fin (- 1)" "Number ''3'' = Fin 3" "Number ''2'' = Fin 2"
  by (simp_all add: Number_def trim_def is_ws_def parse_decimal_def is_digit_def digit_val_def
        to_nat_def pow10_def js_neg_def)

lemma example_import:
  "import_lines {} [''A,5'', ''B,-1'', ''a,3'', ''C,2''] [] 0
     = ([\<lparr>p_name = ''A'', p_qty = Fin 5\<rparr>, \<lparr>p_name = ''C'', p_qty = Fin 2\<rparr>], 2)"
  by (simp add: example_numbers is_separator_def trim_def is_ws_def isFinite_def
        toLowerCase_def lower_char_def)

text \<open>
  Claim C5. On an empty participant registry, \<open>bulkImport\<close> of the four lines
  \<open>A,5\<close>, \<open>B,-1\<close>, \<open>a,3\<close>, \<open>C,2\<close> leaves exactly the participants A with 5 and C
  with 2 tickets, and reports 2 ignored lines.
\<close>

theorem bulkImport_example:
  "bulkImport ''A,5\<newline>B,-1\<newline>a,3\<newline>C,2''
       (s\<lparr>participants := []\<rparr>)
     = (s\<lparr>participants := [\<lparr>p_name = ''A'', p_qty = Fin 5\<rparr>, \<lparr>p_name = ''C'', p_qty = Fin 2\<rparr>]\<rparr>,
        Some (LinesIgnored 2))"
  by (simp add: bulkImport_def example_lines example_import
        del: import_lines.simps split_runs.simps)

text \<open>The same from the empty store.\<close>

theorem bulkImport_example_witness:
  "bulkImport ''A,5\<newline>B,-1\<newline>a,3\<newline>C,2'' init_state
     = (init_state\<lparr>participants := [\<lparr>p_name = ''A'', p_qty = Fin 5\<rparr>, \<lparr>p_name = ''C'', p_qty = Fin 2\<rparr>]\<rparr>,
        Some (LinesIgnored 2))"
  using bulkImport_example [of init_state] by (simp add: init_state_def)

section \<open>Registering a participant and editing a count\<close>

text \<open>The guard of \<open>addParticipant\<close> on the count lets exactly the positive finite numbers pass.\<close>

lemma positive_finite_iff: "positive_finite q \<longleftrightarrow> \<not> (\<not> isFinite q \<or> js_le q (Fin 0))"
  by (cases q) (auto simp: positive_finite_def isFinite_def)

text \<open>Some conversions, for the examples.\<close>

lemma number_examples:
  "Number ''2.5'' = Fin (5 / 2)" "Number ''0'' = Fin 0" "Number ''abc'' = NaN" "Number ''3'' = Fin 3"
  "Number ''-4'' = Fin (- 4)" "Number ''Infinity'' = PosInf" "Number '''' = Fin 0"
  by (simp_all add: Number_def trim_def is_ws_def parse_decimal_def is_digit_def digit_val_def
        to_nat_def pow10_def js_neg_def)

text \<open>
  Claim C6, as amended. \<open>addParticipant\<close> leaves the whole state unchanged, showing at
  most the notice of a duplicate name, when the trimmed name is empty, the count is not a
  positive finite number, or a participant of the same name up to letter case exists.
  Otherwise it appends the participant, with the trimmed name and the count as converted,
  at the end of the list and shows nothing.
\<close>

theorem addParticipant_cases:
  "(trim pName = [] \<or> \<not> positive_finite (Number pQty)
      \<or> (\<exists>x \<in> set (participants s). toLowerCase (p_name x) = toLowerCase (trim pName))
     \<longrightarrow> fst (addParticipant pName pQty s) = s
         \<and> snd (addParticipant pName pQty s) \<in> {None, Some NameAlreadyRegistered}) \<and>
   (trim pName \<noteq> [] \<and> positive_finite (Number pQty)
      \<and> \<not> (\<exists>x \<in> set (participants s). toLowerCase (p_name x) = toLowerCase (trim pName))
     \<longrightarrow> addParticipant pName pQty s
           = (s\<lparr>participants := participants s @ [\<lparr>p_name = trim pName, p_qty = Number pQty\<rparr>]\<rparr>, None))"
  by (auto simp: addParticipant_def positive_finite_iff Let_def)

text \<open>A registration that succeeds, a duplicate in another letter case, a count that is no number.\<close>

theorem addParticipant_cases_witness:
  "addParticipant ''  Ana '' ''3'' init_state
     = (init_state\<lparr>participants := [\<lparr>p_name = ''Ana'', p_qty = Fin 3\<rparr>]\<rparr>, None) \<and>
   fst (addParticipant ''ANA'' ''3'' (init_state\<lparr>participants := [\<lparr>p_name = ''Ana'', p_qty = Fin 3\<rparr>]\<rparr>))
     = init_state\<lparr>participants := [\<lparr>p_name = ''Ana'', p_qty = Fin 3\<rparr>]\<rparr> \<and>
   fst (addParticipant ''Bia'' ''abc'' init_state) = init_state"
proof -
  have t: "trim ''  Ana '' = ''Ana''" "trim ''ANA'' = ''ANA''" "trim ''Bia'' = ''Bia''"
    by (simp_all add: trim_def is_ws_def)
  have l: "toLowerCase ''Ana'' = toLowerCase ''ANA''"
    by (simp add: toLowerCase_def lower_char_def)
  have p: "positive_finite (Number ''3'')" "\<not> positive_finite (Number ''abc'')"
    by (simp_all add: number_examples positive_finite_def)
  from addParticipant_cases [of "''  Ana ''" "''3''" init_state] t p
  have a: "addParticipant ''  Ana '' ''3'' init_state
     = (init_state\<lparr>participants := [\<lparr>p_name = ''Ana'', p_qty = Fin 3\<rparr>]\<rparr>, None)"
    by (simp add: init_state_def number_examples)
  from addParticipant_cases [of "''ANA''" "''3''" "init_state\<lparr>participants := [\<lparr>p_name = ''Ana'', p_qty = Fin 3\<rparr>]\<rparr>"] t l
  have b: "fst (addParticipant ''ANA'' ''3'' (init_state\<lparr>participants := [\<lparr>p_name = ''Ana'', p_qty = Fin 3\<rparr>]\<rparr>))
     = init_state\<lparr>participants := [\<lparr>p_name = ''Ana'', p_qty = Fin 3\<rparr>]\<rparr>"
    by simp
  from addParticipant_cases [of "''Bia''" "''abc''" init_state] p
  have c: "fst (addParticipant ''Bia'' ''abc'' init_state) = init_state"
    by simp
  from a b c show ?thesis by blast
qed

text \<open>
  A count that is positive and finite but not an integer is registered: \<open>2.5\<close> changes
  the participant list.
\<close>

theorem register_fraction_counterexample:
  "\<not> positive_integer (Number ''2.5'') \<and>
   participants (fst (addParticipant ''Ana'' ''2.5'' init_state)) = [\<lparr>p_name = ''Ana'', p_qty = Fin (5 / 2)\<rparr>] \<and>
   participants init_state = []"
proof -
  have f: "\<lfloor>(5 :: rat) / 2\<rfloor> = 2"
    by (simp add: floor_eq_iff)
  show ?thesis
    by (simp add: addParticipant_def number_examples positive_integer_def isFinite_def
          trim_def is_ws_def init_state_def f)
qed

text \<open>
  Claim C9, as amended. \<open>editParticipantQty\<close> keeps the names and the order of all
  participants and the counts of those with another name, changes nothing else in the
  state, and gives every participant of exactly that name the count
  \<open>Math.max(0, Number(newValue) || 0)\<close>. That count is a number not below 0: it is 0
  when the input is not numeric or converts to a value not above 0, and it is the
  converted value itself otherwise, integer or not.
\<close>

theorem editParticipantQty_clamps:
  "list_all2 (\<lambda>p p'. p_name p' = p_name p \<and>
        p_qty p' = (if p_name p = name then Math_max (Fin 0) (or_zero (Number newQty)) else p_qty p))
      (participants s) (participants (editParticipantQty name newQty s)) \<and>
   editParticipantQty name newQty s = s\<lparr>participants := participants (editParticipantQty name newQty s)\<rparr> \<and>
   js_le (Fin 0) (Math_max (Fin 0) (or_zero (Number newQty))) \<and>
   (Number newQty = NaN \<or> js_le (Number newQty) (Fin 0)
      \<longrightarrow> Math_max (Fin 0) (or_zero (Number newQty)) = Fin 0) \<and>
   (js_le (Fin 0) (Number newQty) \<longrightarrow> Math_max (Fin 0) (or_zero (Number newQty)) = Number newQty)"
proof (intro conjI impI)
  show "list_all2 (\<lambda>p p'. p_name p' = p_name p \<and>
        p_qty p' = (if p_name p = name then Math_max (Fin 0) (or_zero (Number newQty)) else p_qty p))
      (participants s) (participants (editParticipantQty name newQty s))"
    by (simp add: editParticipantQty_def Let_def list_all2_map2 list_all2_same)
  show "editParticipantQty name newQty s = s\<lparr>participants := participants (editParticipantQty name newQty s)\<rparr>"
    by (simp add: editParticipantQty_def Let_def)
  show "js_le (Fin 0) (Math_max (Fin 0) (or_zero (Number newQty)))"
    by (cases "Number newQty") (simp_all add: clamp_cases)
  show "Math_max (Fin 0) (or_zero (Number newQty)) = Fin 0"
    if "Number newQty = NaN \<or> js_le (Number newQty) (Fin 0)"
    using that by (cases "Number newQty") (auto simp: clamp_cases)
  show "Math_max (Fin 0) (or_zero (Number newQty)) = Number newQty"
    if "js_le (Fin 0) (Number newQty)"
    using that by (cases "Number newQty") (auto simp: clamp_cases)
qed

text \<open>A negative input clamps to 0 and leaves the other participant alone; a word coerces to 0.\<close>

theorem editParticipantQty_clamps_witness:
  "participants (editParticipantQty ''Ana'' ''-4''
      (init_state\<lparr>participants := [\<lparr>p_name = ''Ana'', p_qty = Fin 3\<rparr>, \<lparr>p_name = ''Bia'', p_qty = Fin 2\<rparr>]\<rparr>))
     = [\<lparr>p_name = ''Ana'', p_qty = Fin 0\<rparr>, \<lparr>p_name = ''Bia'', p_qty = Fin 2\<rparr>] \<and>
   Math_max (Fin 0) (or_zero (Number ''abc'')) = Fin 0"
proof -
  have n: "js_le (Number ''-4'') (Fin 0)" "Number ''abc'' = NaN"
    by (simp_all add: number_examples)
  from editParticipantQty_clamps [of "''Ana''" "''-4''"
      "init_state\<lparr>participants := [\<lparr>p_name = ''Ana'', p_qty = Fin 3\<rparr>, \<lparr>p_name = ''Bia'', p_qty = Fin 2\<rparr>]\<rparr>"] n(1)
  have a: "participants (editParticipantQty ''Ana'' ''-4''
      (init_state\<lparr>participants := [\<lparr>p_name = ''Ana'', p_qty = Fin 3\<rparr>, \<lparr>p_name = ''Bia'', p_qty = Fin 2\<rparr>]\<rparr>))
     = [\<lparr>p_name = ''Ana'', p_qty = Fin 0\<rparr>, \<lparr>p_name = ''Bia'', p_qty = Fin 2\<rparr>]"
    by (auto simp: list_all2_Cons1)
  from editParticipantQty_clamps [of "''Ana''" "''abc''" init_state] n(2)
  have b: "Math_max (Fin 0) (or_zero (Number ''abc'')) = Fin 0"
    by simp
  from a b show ?thesis by blast
qed

text \<open>The new count need not be an integer: the input \<open>2.5\<close> is stored as it is.\<close>

theorem edit_fraction_counterexample:
  "participants (editParticipantQty ''Ana'' ''2.5'' (init_state\<lparr>participants := [\<lparr>p_name = ''Ana'', p_qty = Fin 3\<rparr>]\<rparr>))
     = [\<lparr>p_name = ''Ana'', p_qty = Fin (5 / 2)\<rparr>] \<and>
   \<not> nonneg_integer (Fin (5 / 2))"
proof -
  have f: "\<lfloor>(5 :: rat) / 2\<rfloor> = 2"
    by (simp add: floor_eq_iff)
  show ?thesis
    by (simp add: editParticipantQty_def number_examples clamp_cases nonneg_integer_def f)
qed

section \<open>Unique names\<close>

text \<open>
  Appending a participant whose lower-cased name is new keeps the names unique; the loop
  of \<open>bulkImport\<close> keeps its \<open>toAdd\<close> unique and apart from the names already there.
\<close>

lemma unique_names_snoc:
  "unique_names ps \<Longrightarrow> \<not> (\<exists>x \<in> set ps. toLowerCase (p_name x) = toLowerCase nm) \<Longrightarrow>
   unique_names (ps @ [\<lparr>p_name = nm, p_qty = q\<rparr>])"
  by (auto simp: unique_names_def)

lemma unique_names_addParticipant:
  "unique_names (participants s) \<Longrightarrow> unique_names (participants (fst (addParticipant pName pQty s)))"
  by (simp add: addParticipant_def Let_def unique_names_snoc)

lemma import_lines_unique:
  "unique_names toAdd \<Longrightarrow> \<forall>x \<in> set toAdd. toLowerCase (p_name x) \<notin> E \<Longrightarrow>
   unique_names (fst (import_lines E lines toAdd k)) \<and>
   (\<forall>x \<in> set (fst (import_lines E lines toAdd k)). toLowerCase (p_name x) \<notin> E)"
proof (induction lines arbitrary: toAdd k)
  case Nil
  then show ?case by simp
next
  case (Cons line rest)
  define parts where "parts = filter (\<lambda>x. x \<noteq> []) (map trim (split_at is_separator line))"
  define nm where "nm = (case parts of [] \<Rightarrow> [] | x # _ \<Rightarrow> x)"
  define q where "q = Number (case parts of _ # y # _ \<Rightarrow> y | _ \<Rightarrow> ''0'')"
  define accepted where "accepted \<longleftrightarrow>
    \<not> (nm = [] \<or> \<not> isFinite q \<or> js_le q (Fin 0)) \<and>
    \<not> (toLowerCase nm \<in> E \<or> (\<exists>x \<in> set toAdd. toLowerCase (p_name x) = toLowerCase nm))"
  have eq: "import_lines E (line # rest) toAdd k =
      (if accepted then import_lines E rest (toAdd @ [\<lparr>p_name = nm, p_qty = q\<rparr>]) k
       else import_lines E rest toAdd (k + 1))"
    unfolding accepted_def nm_def q_def parts_def by (simp add: Let_def)
  show ?case
  proof (cases accepted)
    case True
    then have "unique_names (toAdd @ [\<lparr>p_name = nm, p_qty = q\<rparr>])"
      using Cons.prems(1) by (simp add: accepted_def unique_names_snoc)
    moreover have "\<forall>x \<in> set (toAdd @ [\<lparr>p_name = nm, p_qty = q\<rparr>]). toLowerCase (p_name x) \<notin> E"
      using True Cons.prems(2) by (simp add: accepted_def)
    ultimately have "unique_names (fst (import_lines E rest (toAdd @ [\<lparr>p_name = nm, p_qty = q\<rparr>]) k)) \<and>
        (\<forall>x \<in> set (fst (import_lines E rest (toAdd @ [\<lparr>p_name = nm, p_qty = q\<rparr>]) k)).
           toLowerCase (p_name x) \<notin> E)"
      by (rule Cons.IH)
    then show ?thesis
      unfolding eq using True by simp
  next
    case False
    from Cons.prems
    have "unique_names (fst (import_lines E rest toAdd (k + 1))) \<and>
        (\<forall>x \<in> set (fst (import_lines E rest toAdd (k + 1))). toLowerCase (p_name x) \<notin> E)"
      by (rule Cons.IH)
    then show ?thesis
      unfolding eq using False by simp
  qed
qed

lemma unique_names_append:
  "unique_names ps \<Longrightarrow> unique_names qs \<Longrightarrow>
   \<forall>x \<in> set qs. toLowerCase (p_name x) \<notin> set (map (\<lambda>p. toLowerCase (p_name p)) ps) \<Longrightarrow>
   unique_names (ps @ qs)"
  by (auto simp: unique_names_def) (metis imageI)

lemma unique_names_bulkImport:
  assumes "unique_names (participants s)"
  shows "unique_names (participants (fst (bulkImport raw s)))"
proof -
  let ?E = "set (map (\<lambda>p. toLowerCase (p_name p)) (participants s))"
  have "unique_names (fst (import_lines ?E lines [] 0)) \<and>
        (\<forall>x \<in> set (fst (import_lines ?E lines [] 0)). toLowerCase (p_name x) \<notin> ?E)" for lines
    by (rule import_lines_unique) (simp_all add: unique_names_def)
  then have "unique_names (participants s @ fst (import_lines ?E lines [] 0))" for lines
    using assms unique_names_append by blast
  then show ?thesis
    using assms by (simp add: bulkImport_def Let_def split_beta)
qed

lemma step_registration:
  "is_registration e \<Longrightarrow> unique_names (participants s) \<Longrightarrow>
   \<exists>s'. step e s = Some s' \<and> unique_names (participants s')"
  by (cases e) (simp_all add: unique_names_addParticipant unique_names_bulkImport)

text \<open>
  Claim C4. From a state in which no two participants have the same name up to letter
  case, every sequence of \<open>addParticipant\<close> and \<open>bulkImport\<close> actions runs to the end
  and reaches a state in which again no two participants have the same name up to
  letter case.
\<close>

theorem registrations_keep_names_unique:
  "unique_names (participants s) \<Longrightarrow> list_all is_registration evs \<Longrightarrow>
   \<exists>s'. run evs s = Some s' \<and> unique_names (participants s')"
proof (induction evs arbitrary: s)
  case Nil
  then show ?case by simp
next
  case (Cons e evs)
  then obtain s1 where s1: "step e s = Some s1" "unique_names (participants s1)"
    using step_registration [of e s] by auto
  with Cons.IH [of s1] Cons.prems show ?case by simp
qed

text \<open>
  A registration, an import of the same name in small letters (ignored), and another
  registration.
\<close>

theorem registrations_keep_names_unique_witness:
  "unique_names (participants init_state) \<and>
   list_all is_registration [AddParticipant ''Ana'' ''3'', BulkImport ''ana,2'', AddParticipant ''Bia'' ''1''] \<and>
   run [AddParticipant ''Ana'' ''3'', BulkImport ''ana,2'', AddParticipant ''Bia'' ''1''] init_state
     = Some (init_state\<lparr>participants := [\<lparr>p_name = ''Ana'', p_qty = Fin 3\<rparr>, \<lparr>p_name = ''Bia'', p_qty = Fin 1\<rparr>]\<rparr>) \<and>
   unique_names [\<lparr>p_name = ''Ana'', p_qty = Fin 3\<rparr>, \<lparr>p_name = ''Bia'', p_qty = Fin 1\<rparr>]"
proof -
  let ?evs = "[AddParticipant ''Ana'' ''3'', BulkImport ''ana,2'', AddParticipant ''Bia'' ''1'']"
  let ?A = "init_state\<lparr>participants := [\<lparr>p_name = ''Ana'', p_qty = Fin 3\<rparr>]\<rparr>"
  let ?B = "init_state\<lparr>participants := [\<lparr>p_name = ''Ana'', p_qty = Fin 3\<rparr>, \<lparr>p_name = ''Bia'', p_qty = Fin 1\<rparr>]\<rparr>"
  have n: "Number ''3'' = Fin 3" "Number ''2'' = Fin 2" "Number ''1'' = Fin 1"
    by (simp_all add: Number_def trim_def is_ws_def parse_decimal_def is_digit_def digit_val_def
          to_nat_def pow10_def)
  have u: "unique_names (participants init_state)"
    by (simp add: unique_names_def init_state_def)
  have r: "list_all is_registration ?evs"
    by simp
  have s1: "step (AddParticipant ''Ana'' ''3'') init_state = Some ?A"
    by (simp add: addParticipant_def n trim_def is_ws_def isFinite_def init_state_def)
  have s2: "step (BulkImport ''ana,2'') ?A = Some ?A"
    by (simp add: bulkImport_def n trim_def is_ws_def isFinite_def init_state_def
          is_newline_def is_separator_def toLowerCase_def lower_char_def)
  have s3: "step (AddParticipant ''Bia'' ''1'') ?A = Some ?B"
    by (simp add: addParticipant_def n trim_def is_ws_def isFinite_def init_state_def
          toLowerCase_def lower_char_def)
  have run: "run ?evs init_state = Some ?B"
    using s1 s2 s3 by (simp del: step.simps)
  from registrations_keep_names_unique [OF u r] run
  have "unique_names (participants ?B)"
    by simp
  then have "unique_names [\<lparr>p_name = ''Ana'', p_qty = Fin 3\<rparr>, \<lparr>p_name = ''Bia'', p_qty = Fin 1\<rparr>]"
    by (simp add: init_state_def)
  with u r run show ?thesis by blast
qed

section \<open>Draws\<close>

lemma drawCore_refused:
  "couponsPool (participants s) (winners s) = Some pool \<Longrightarrow>
   pool = [] \<or> remainingPrizes (prizes s) (winners s) = [] \<Longrightarrow>
   drawCore s r now = Returns (s, Some (if pool = [] then NoEligibleCoupons else NoPrizesLeft), None)"
  by (auto simp: drawCore_def Let_def)

text \<open>
  Claim C3. In a state whose ticket pool is empty, or whose pool is not empty while no
  un-awarded prize remains, \<open>drawCore\<close> returns no winner, shows the notice of the
  failed precondition and leaves the whole state, winner ledger and audit log included,
  as it was; so do \<open>draw\<close> and \<open>drawWithCountdown\<close>. The pool of the state is the one
  the page has built to show the state at all: where building it throws, the page does
  not come up and no draw can be asked for.
\<close>

theorem refused_draw_changes_nothing:
  "couponsPool (participants s) (winners s) = Some pool \<Longrightarrow>
   pool = [] \<or> remainingPrizes (prizes s) (winners s) = [] \<Longrightarrow>
   drawCore s r now = Returns (s, Some (if pool = [] then NoEligibleCoupons else NoPrizesLeft), None) \<and>
   (\<exists>n. draw s r now = Returns (s, n, None)) \<and>
   (\<exists>n. drawWithCountdown s r now = Returns (s, n, None))"
  using drawCore_refused [of s pool r now]
  by (auto simp: draw_def drawWithCountdown_def Let_def)

text \<open>A draw in the empty store, and a draw with tickets but no prize.\<close>

theorem refused_draw_changes_nothing_witness:
  "drawCore init_state 0 \<lparr>toISOString = ''t'', toLocaleDateString = ''d'', toLocaleTimeString = ''h''\<rparr>
     = Returns (init_state, Some NoEligibleCoupons, None) \<and>
   drawCore (init_state\<lparr>participants := [\<lparr>p_name = ''Ana'', p_qty = Fin 2\<rparr>]\<rparr>) 0
       \<lparr>toISOString = ''t'', toLocaleDateString = ''d'', toLocaleTimeString = ''h''\<rparr>
     = Returns (init_state\<lparr>participants := [\<lparr>p_name = ''Ana'', p_qty = Fin 2\<rparr>]\<rparr>, Some NoPrizesLeft, None)"
proof -
  let ?clk = "\<lparr>toISOString = ''t'', toLocaleDateString = ''d'', toLocaleTimeString = ''h''\<rparr>"
  let ?A = "init_state\<lparr>participants := [\<lparr>p_name = ''Ana'', p_qty = Fin 2\<rparr>]\<rparr>"
  have p0: "couponsPool (participants init_state) (winners init_state) = Some []"
    by (simp add: couponsPool_def init_state_def)
  have "spec_pool [\<lparr>p_name = ''Ana'', p_qty = Fin 2\<rparr>] [] = [(''Ana'', 1), (''Ana'', 2)]"
    by (simp add: spec_pool_def eligible_def winnersSet_def whole_tickets_def upto_rec1)
  then have p1: "couponsPool (participants ?A) (winners ?A) = Some [(''Ana'', 1), (''Ana'', 2)]"
    using couponsPool_Some [of "[\<lparr>p_name = ''Ana'', p_qty = Fin 2\<rparr>]" "[]"]
    by (simp add: init_state_def eligible_def array_max_def)
  have r1: "remainingPrizes (prizes ?A) (winners ?A) = []"
    by (simp add: remainingPrizes_def init_state_def)
  from refused_draw_changes_nothing [OF p0, of 0 ?clk]
  have a: "drawCore init_state 0 ?clk = Returns (init_state, Some NoEligibleCoupons, None)"
    by simp
  from refused_draw_changes_nothing [OF p1, of 0 ?clk] r1
  have b: "drawCore ?A 0 ?clk = Returns (?A, Some NoPrizesLeft, None)"
    by simp
  from a b show ?thesis by blast
qed

text \<open>
  What a returning \<open>drawCore\<close> does to the state: nothing, or it appends a winner whose
  prize is the first remaining one.
\<close>

lemma drawCore_effect:
  "drawCore s r now = Returns (s', n, w) \<Longrightarrow>
   participants s' = participants s \<and> prizes s' = prizes s \<and>
   (w = None \<and> s' = s \<or>
    (\<exists>win pr rest. w = Some win \<and> remainingPrizes (prizes s) (winners s) = pr # rest \<and>
       w_prize win = pr_name pr \<and> winners s' = winners s @ [win]))"
  by (auto simp: drawCore_def Let_def split: option.splits list.splits if_splits)

lemma remaining_head_fresh:
  assumes "remainingPrizes prs ws = pr # rest"
  shows "pr_name pr \<notin> set (map w_prize ws)"
proof -
  have "pr \<in> set (remainingPrizes prs ws)"
    by (simp add: assms)
  then show ?thesis
    by (auto simp: remainingPrizes_def)
qed

lemma remaining_head_lowest:
  assumes "contiguous prs" and "remainingPrizes prs ws = pr # rest"
  shows "\<forall>x \<in> set rest. pr_order pr < pr_order x"
proof -
  from assms(1) have "sorted_wrt (<) (map pr_order prs)"
    by (simp add: contiguous_def del: upt_Suc)
  then have "sorted_wrt (\<lambda>a b. pr_order a < pr_order b) prs"
    by (simp add: sorted_wrt_map)
  then have "sorted_wrt (\<lambda>a b. pr_order a < pr_order b) (remainingPrizes prs ws)"
    unfolding remainingPrizes_def by (rule sorted_wrt_filter)
  then show ?thesis
    by (simp add: assms(2))
qed

text \<open>Every action keeps the ledger free of repeated prizes and the prizes numbered 1 to N.\<close>

lemma addParticipant_frame:
  "winners (fst (addParticipant a b s)) = winners s \<and> prizes (fst (addParticipant a b s)) = prizes s"
  by (simp add: addParticipant_def Let_def)

lemma bulkImport_frame:
  "winners (fst (bulkImport raw s)) = winners s \<and> prizes (fst (bulkImport raw s)) = prizes s"
  by (simp add: bulkImport_def Let_def split_beta)

lemma contiguous_Nil: "contiguous []"
  by (simp add: contiguous_def)

lemma contiguous_addPrize:
  assumes "contiguous (prizes s)"
  shows "contiguous (prizes (addPrize nm s))"
proof (cases "trim nm = []")
  case True
  then show ?thesis using assms by (simp add: addPrize_def)
next
  case False
  let ?n = "length (prizes s)"
  have "[1..<Suc (Suc ?n)] = [1..<Suc ?n] @ [Suc ?n]"
    by (rule upt_Suc_append) simp
  with assms have "contiguous (prizes s @ [\<lparr>pr_name = trim nm, pr_order = ?n + 1\<rparr>])"
    by (simp add: contiguous_def del: upt_Suc)
  then show ?thesis using False by (simp add: addPrize_def Let_def)
qed

lemma ledger_ok_drawCore:
  assumes "ledger_ok s" and "drawCore s r now = Returns (s', n, w)"
  shows "ledger_ok s'"
proof -
  from drawCore_effect [OF assms(2)]
  have p: "prizes s' = prizes s"
    and w: "winners s' = winners s \<or>
      (\<exists>win pr rest. remainingPrizes (prizes s) (winners s) = pr # rest \<and>
         w_prize win = pr_name pr \<and> winners s' = winners s @ [win])"
    by auto
  from w have "distinct (map w_prize (winners s'))"
  proof
    assume "winners s' = winners s"
    with assms(1) show ?thesis by (simp add: ledger_ok_def)
  next
    assume "\<exists>win pr rest. remainingPrizes (prizes s) (winners s) = pr # rest \<and>
         w_prize win = pr_name pr \<and> winners s' = winners s @ [win]"
    then obtain win pr rest where r: "remainingPrizes (prizes s) (winners s) = pr # rest"
      and e: "w_prize win = pr_name pr" "winners s' = winners s @ [win]"
      by blast
    from remaining_head_fresh [OF r] e assms(1) show ?thesis
      by (simp add: ledger_ok_def)
  qed
  with p assms(1) show ?thesis by (simp add: ledger_ok_def)
qed

lemma ledger_ok_frame:
  "ledger_ok s \<Longrightarrow> winners s' = winners s \<Longrightarrow> prizes s' = prizes s \<Longrightarrow> ledger_ok s'"
  by (simp add: ledger_ok_def)

lemma ledger_ok_step:
  assumes "ledger_ok s" and "step e s = Some s'"
  shows "ledger_ok s'"
proof (cases e)
  case (AddParticipant a b)
  with assms show ?thesis
    using ledger_ok_frame [of s s'] addParticipant_frame [of a b s] by auto
next
  case (EditParticipantQty a b)
  with assms show ?thesis
    by (auto simp: ledger_ok_def editParticipantQty_def Let_def)
next
  case (RemoveParticipant a)
  with assms show ?thesis
    by (auto simp: ledger_ok_def removeParticipant_def)
next
  case (BulkImport raw)
  with assms show ?thesis
    using ledger_ok_frame [of s s'] bulkImport_frame [of raw s] by auto
next
  case (AddPrize a)
  with assms have "s' = addPrize a s" by simp
  moreover have "winners (addPrize a s) = winners s" by (simp add: addPrize_def Let_def)
  ultimately show ?thesis
    using assms(1) contiguous_addPrize [of s a] by (simp add: ledger_ok_def)
next
  case (RemovePrize a)
  with assms have "s' = removePrize a s" by simp
  moreover have "winners (removePrize a s) = winners s" by (simp add: removePrize_def)
  ultimately show ?thesis
    using assms(1) contiguous_removePrize [of a s] by (simp add: ledger_ok_def)
next
  case ResetWinners
  with assms show ?thesis
    by (auto simp: ledger_ok_def resetWinners_def)
next
  case (HardReset c)
  with assms have "s' = hardReset c s" by simp
  with assms(1) show ?thesis
    by (cases c) (simp_all add: ledger_ok_def hardReset_def contiguous_Nil)
next
  case (Draw r now)
  with assms obtain n w where "draw s r now = Returns (s', n, w)"
    by (auto simp: returned_state_def split: outcome.splits)
  then have "s' = s \<or> drawCore s r now = Returns (s', n, w)"
    by (auto simp: draw_def split: if_splits)
  with assms(1) show ?thesis
    using ledger_ok_drawCore by blast
next
  case (DrawWithCountdown r now)
  with assms obtain n w where "drawWithCountdown s r now = Returns (s', n, w)"
    by (auto simp: returned_state_def split: outcome.splits)
  then have "s' = s \<or> drawCore s r now = Returns (s', n, w)
      \<or> drawCore (s\<lparr>countdown := 0, rolling := False\<rparr>) r now = Returns (s', n, w)"
    by (auto simp: drawWithCountdown_def Let_def split: if_splits option.splits)
  moreover have "ledger_ok (s\<lparr>countdown := 0, rolling := False\<rparr>)"
    using assms(1) by (simp add: ledger_ok_def)
  ultimately show ?thesis
    using assms(1) ledger_ok_drawCore by blast
next
  case CloseOverlay
  with assms show ?thesis
    by (auto simp: ledger_ok_def)
next
  case ClearAudit
  with assms show ?thesis
    by (auto simp: ledger_ok_def)
qed

lemma ledger_ok_run: "ledger_ok s \<Longrightarrow> run evs s = Some s' \<Longrightarrow> ledger_ok s'"
proof (induction evs arbitrary: s)
  case Nil
  then show ?case by simp
next
  case (Cons e evs)
  then obtain s1 where s1: "step e s = Some s1" "run evs s1 = Some s'"
    by (auto split: option.splits)
  from Cons.prems(1) s1(1) have "ledger_ok s1" by (rule ledger_ok_step)
  then show ?case using s1(2) by (rule Cons.IH)
qed

lemma ledger_ok_init: "ledger_ok init_state"
  by (simp add: ledger_ok_def init_state_def contiguous_def)

lemma run_append:
  "run (xs @ ys) s = (case run xs s of None \<Rightarrow> None | Some s' \<Rightarrow> run ys s')"
  by (induction xs arbitrary: s) (simp_all split: option.splits)

text \<open>
  Claim C1. In every state that a session reaches from the empty store, no prize name
  occurs twice in the winner ledger; and whenever \<open>drawCore\<close> returns a winner there,
  the prize it awards is the first element of the prizes filtered to those whose name is
  in no ledger entry, which has a lower draw order than every other remaining prize and
  was not in the ledger before, and the winner is appended to the ledger.
\<close>

theorem prizes_awarded_once_in_order:
  "run evs init_state = Some s \<Longrightarrow>
   distinct (map w_prize (winners s)) \<and>
   (\<forall>r now s' n w. drawCore s r now = Returns (s', n, Some w) \<longrightarrow>
      (\<exists>pr rest. remainingPrizes (prizes s) (winners s) = pr # rest \<and>
         w_prize w = pr_name pr \<and>
         (\<forall>x \<in> set rest. pr_order pr < pr_order x) \<and>
         pr_name pr \<notin> set (map w_prize (winners s)) \<and>
         winners s' = winners s @ [w]))"
proof (intro conjI allI impI)
  assume run: "run evs init_state = Some s"
  with ledger_ok_init have ok: "ledger_ok s" by (rule ledger_ok_run)
  then show "distinct (map w_prize (winners s))" by (simp add: ledger_ok_def)
  fix r now s' n w
  assume "drawCore s r now = Returns (s', n, Some w)"
  from drawCore_effect [OF this]
  obtain pr rest where r: "remainingPrizes (prizes s) (winners s) = pr # rest"
    and e: "w_prize w = pr_name pr" "winners s' = winners s @ [w]"
    by auto
  from ok have "contiguous (prizes s)" by (simp add: ledger_ok_def)
  from remaining_head_lowest [OF this r] remaining_head_fresh [OF r] r e
  show "\<exists>pr rest. remainingPrizes (prizes s) (winners s) = pr # rest \<and>
         w_prize w = pr_name pr \<and>
         (\<forall>x \<in> set rest. pr_order pr < pr_order x) \<and>
         pr_name pr \<notin> set (map w_prize (winners s)) \<and>
         winners s' = winners s @ [w]"
    by blast
qed

text \<open>
  Two participants and two prizes: the first draw awards P1, and a second draw in the
  state reached awards P2 to the participant who has not won.
\<close>

theorem prizes_awarded_once_in_order_witness:
  "map_option (\<lambda>s. map w_prize (winners s))
     (run [AddParticipant ''Rafael'' ''2'', AddParticipant ''Juliana'' ''1'', AddPrize ''P1'',
           AddPrize ''P2'',
           Draw (1 / 3) \<lparr>toISOString = ''t'', toLocaleDateString = ''d'', toLocaleTimeString = ''h''\<rparr>]
        init_state) = Some [''P1''] \<and>
   distinct [''P1''] \<and>
   (\<exists>s s' n w.
      run [AddParticipant ''Rafael'' ''2'', AddParticipant ''Juliana'' ''1'', AddPrize ''P1'',
           AddPrize ''P2'',
           Draw (1 / 3) \<lparr>toISOString = ''t'', toLocaleDateString = ''d'', toLocaleTimeString = ''h''\<rparr>]
        init_state = Some s \<and>
      drawCore s 0 \<lparr>toISOString = ''t'', toLocaleDateString = ''d'', toLocaleTimeString = ''h''\<rparr>
        = Returns (s', n, Some w) \<and>
      w_name w = ''Juliana'' \<and> w_prize w = ''P2'' \<and> map w_prize (winners s') = [''P1'', ''P2''])"
proof -
  let ?clk = "\<lparr>toISOString = ''t'', toLocaleDateString = ''d'', toLocaleTimeString = ''h''\<rparr>"
  let ?ps = "[\<lparr>p_name = ''Rafael'', p_qty = Fin 2\<rparr>, \<lparr>p_name = ''Juliana'', p_qty = Fin 1\<rparr>]"
  let ?prs = "[\<lparr>pr_name = ''P1'', pr_order = 1\<rparr>, \<lparr>pr_name = ''P2'', pr_order = 2\<rparr>]"
  let ?w1 = "\<lparr>w_name = ''Rafael'', w_couponNumber = 2, w_prize = ''P1'', w_ts = ''t''\<rparr>"
  let ?w2 = "\<lparr>w_name = ''Juliana'', w_couponNumber = 1, w_prize = ''P2'', w_ts = ''t''\<rparr>"
  let ?a1 = "\<lparr>Data = ''d'', Hora = ''h'', Participante = ''Rafael'', Cupom = 2,
              Qtde_Cupons = Fin 2, Premio = ''P1''\<rparr>"
  let ?a2 = "\<lparr>Data = ''d'', Hora = ''h'', Participante = ''Juliana'', Cupom = 1,
              Qtde_Cupons = Fin 1, Premio = ''P2''\<rparr>"
  let ?S0 = "\<lparr>participants = ?ps, prizes = ?prs, winners = [], audit = [],
              highlight = None, countdown = 0, rolling = False\<rparr>"
  let ?S1 = "\<lparr>participants = ?ps, prizes = ?prs, winners = [?w1], audit = [?a1],
              highlight = Some ?w1, countdown = 0, rolling = False\<rparr>"
  let ?S2 = "\<lparr>participants = ?ps, prizes = ?prs, winners = [?w1, ?w2], audit = [?a1, ?a2],
              highlight = Some ?w2, countdown = 0, rolling = False\<rparr>"
  let ?reg = "[AddParticipant ''Rafael'' ''2'', AddParticipant ''Juliana'' ''1'', AddPrize ''P1'',
           AddPrize ''P2'']"
  have n: "Number ''2'' = Fin 2" "Number ''1'' = Fin 1"
    by (simp_all add: Number_def trim_def is_ws_def parse_decimal_def is_digit_def digit_val_def
          to_nat_def pow10_def)
  have r0: "run ?reg init_state = Some ?S0"
    by (simp add: addParticipant_def addPrize_def n trim_def is_ws_def isFinite_def
          init_state_def toLowerCase_def lower_char_def)
  have "spec_pool ?ps [] = [(''Rafael'', 1), (''Rafael'', 2), (''Juliana'', 1)]"
    by (simp add: spec_pool_def eligible_def winnersSet_def whole_tickets_def upto_rec1)
  then have p0: "couponsPool ?ps [] = Some [(''Rafael'', 1), (''Rafael'', 2), (''Juliana'', 1)]"
    using couponsPool_Some [of ?ps "[]"] by (simp add: eligible_def array_max_def)
  have e1: "eligible ?ps [?w1] = [\<lparr>p_name = ''Juliana'', p_qty = Fin 1\<rparr>]"
    by (simp add: eligible_def winnersSet_def toLowerCase_def lower_char_def)
  have "spec_pool ?ps [?w1] = [(''Juliana'', 1)]"
    by (simp add: spec_pool_def e1 whole_tickets_def upto_rec1)
  then have p1: "couponsPool ?ps [?w1] = Some [(''Juliana'', 1)]"
    using couponsPool_Some [of ?ps "[?w1]"] by (simp add: e1 array_max_def)
  have d1: "drawCore ?S0 (1 / 3) ?clk = Returns (?S1, None, Some ?w1)"
    by (simp add: drawCore_def p0 remainingPrizes_def or_zero_def Let_def)
  have d2: "drawCore ?S1 0 ?clk = Returns (?S2, None, Some ?w2)"
    by (simp add: drawCore_def p1 remainingPrizes_def or_zero_def Let_def)
  have s5: "step (Draw (1 / 3) ?clk) ?S0 = Some ?S1"
    using d1 by (simp add: draw_def returned_state_def)
  have r5: "run [Draw (1 / 3) ?clk] ?S0 = Some ?S1"
    using s5 by (simp del: step.simps)
  have "run (?reg @ [Draw (1 / 3) ?clk]) init_state = Some ?S1"
    by (simp only: run_append r0 r5 option.case)
  then have run: "run [AddParticipant ''Rafael'' ''2'', AddParticipant ''Juliana'' ''1'', AddPrize ''P1'',
           AddPrize ''P2'', Draw (1 / 3) ?clk] init_state = Some ?S1"
    by simp
  from prizes_awarded_once_in_order [OF run]
  have "distinct (map w_prize (winners ?S1))"
    and "\<exists>pr rest. remainingPrizes (prizes ?S1) (winners ?S1) = pr # rest \<and>
         w_prize ?w2 = pr_name pr \<and> (\<forall>x \<in> set rest. pr_order pr < pr_order x) \<and>
         pr_name pr \<notin> set (map w_prize (winners ?S1)) \<and> winners ?S2 = winners ?S1 @ [?w2]"
    using d2 by blast+
  then have "distinct [''P1'']"
    by simp
  with run d2 show ?thesis
    by (intro conjI exI [of _ ?S1] exI [of _ ?S2] exI [of _ None] exI [of _ ?w2]) simp_all
qed

end
